theory Spec2Isabelle
  imports Complex_Main
begin

section \<open>Data model\<close>

text \<open>
  The wall-drawing core of the viewport: \<^verbatim>\<open>src/components/DrawingPlane.tsx\<close> (snapping,
  segment intersection, angle check, the click and pointer-move handlers) and
  \<^verbatim>\<open>src/components/CadViewport.tsx\<close> (the wall list, the undo and redo stacks, the
  selection). JavaScript numbers are modelled as real numbers, so rounding error, NaN and
  infinities are outside the model. A \<^verbatim>\<open>Point3\<close> is the triple \<^verbatim>\<open>[x, y, z]\<close>; a value that
  may be \<^verbatim>\<open>null\<close> is an option. The field \<^verbatim>\<open>end\<close> of a segment is written \<open>seg_end\<close>.
\<close>

type_synonym Point3 = "real \<times> real \<times> real"

record Segment =
  seg_id :: string
  seg_start :: Point3
  seg_end :: Point3

definition SNAP_RADIUS :: real where
  "SNAP_RADIUS = 1 / 2"

definition GRID_SIZE :: real where
  "GRID_SIZE = 1 / 4"

definition MIN_ANGLE_DEG :: real where
  "MIN_ANGLE_DEG = 30"

definition MIN_ANGLE_RAD :: real where
  "MIN_ANGLE_RAD = (MIN_ANGLE_DEG * pi) / 180"

text \<open>\<^verbatim>\<open>Math.round\<close>: the nearest integer, a half rounded towards plus infinity.\<close>

definition Math_round :: "real \<Rightarrow> real" where
  "Math_round x = of_int \<lfloor>x + 1 / 2\<rfloor>"

text \<open>\<^verbatim>\<open>Math.hypot\<close> of two arguments.\<close>

definition Math_hypot :: "real \<Rightarrow> real \<Rightarrow> real" where
  "Math_hypot x z = sqrt (x * x + z * z)"

section \<open>Snapping, angle and intersection\<close>

fun snapToGrid :: "Point3 \<Rightarrow> Point3" where
  "snapToGrid (x, y, z) =
     (Math_round (x / GRID_SIZE) * GRID_SIZE, y, Math_round (z / GRID_SIZE) * GRID_SIZE)"

fun angleAtVertexDot :: "Point3 \<Rightarrow> Point3 \<Rightarrow> Point3 \<Rightarrow> real" where
  "angleAtVertexDot (a0, a1, a2) (b0, b1, b2) (c0, c1, c2) =
     (let ux = a0 - b0; uz = a2 - b2;
          vx = c0 - b0; vz = c2 - b2;
          dot = ux * vx + uz * vz;
          lenU = Math_hypot ux uz; lenV = Math_hypot vx vz
      in if lenU = 0 \<or> lenV = 0 then 0
         else arccos (min 1 (max (- 1) (dot / (lenU * lenV)))))"

text \<open>
  \<^verbatim>\<open>IntersectionWithT\<close> is \<^verbatim>\<open>{ hit: false }\<close> or \<^verbatim>\<open>{ hit: true, point, t }\<close>: here \<open>None\<close> or
  \<open>Some (point, t)\<close>.
\<close>

fun segmentsIntersectionPoint2DWithT ::
  "Point3 \<Rightarrow> Point3 \<Rightarrow> Point3 \<Rightarrow> Point3 \<Rightarrow> (Point3 \<times> real) option" where
  "segmentsIntersectionPoint2DWithT (x1, y1, z1) (x2, y2, z2) (x3, y3, z3) (x4, y4, z4) =
     (let denom = (x1 - x2) * (z3 - z4) - (z1 - z2) * (x3 - x4)
      in if \<bar>denom\<bar> < 1 / 1000000 then None
         else
           let t = ((x1 - x3) * (z3 - z4) - (z1 - z3) * (x3 - x4)) / denom;
               u = ((x1 - x3) * (z1 - z2) - (z1 - z3) * (x1 - x2)) / denom
           in if t > 1 / 1000000 \<and> t < 1 - 1 / 1000000 \<and> u > 1 / 1000000 \<and> u < 1 - 1 / 1000000
              then Some ((x1 + t * (x2 - x1), 0, z1 + t * (z2 - z1)), t)
              else None)"

definition wouldIntersectExistingWalls :: "Point3 \<Rightarrow> Point3 \<Rightarrow> Segment list \<Rightarrow> bool" where
  "wouldIntersectExistingWalls start endp segments =
     list_ex
       (\<lambda>seg. \<not> Option.is_none
                 (segmentsIntersectionPoint2DWithT start endp (seg_start seg) (seg_end seg)))
       segments"

definition snapPoints :: "Segment list \<Rightarrow> Point3 list" where
  "snapPoints segments = concat (map (\<lambda>s. [seg_start s, seg_end s]) segments)"

definition distSq :: "Point3 \<Rightarrow> Point3 \<Rightarrow> real" where
  "distSq snapped sp =
     (let dx = fst sp - fst snapped; dz = snd (snd sp) - snd (snd snapped)
      in dx * dx + dz * dz)"

text \<open>
  The loop of \<^verbatim>\<open>applySnap\<close> over the snap points, on the pair of its two variables
  \<^verbatim>\<open>closest\<close> and \<^verbatim>\<open>minDistSq\<close>.
\<close>

fun snapLoop :: "Point3 \<Rightarrow> Point3 list \<Rightarrow> Point3 option \<times> real \<Rightarrow> Point3 option \<times> real" where
  "snapLoop snapped [] acc = acc"
| "snapLoop snapped (sp # sps) (closest, minDistSq) =
     (if distSq snapped sp \<le> minDistSq
      then snapLoop snapped sps (Some sp, distSq snapped sp)
      else snapLoop snapped sps (closest, minDistSq))"

definition applySnap :: "bool \<Rightarrow> Point3 list \<Rightarrow> Point3 option \<Rightarrow> Point3 option" where
  "applySnap snapGridEnabled sps p =
     (case p of
        None \<Rightarrow> None
      | Some q \<Rightarrow>
          let snapped = (if snapGridEnabled then snapToGrid q else q)
          in if sps = [] then Some snapped
             else (case fst (snapLoop snapped sps (None, SNAP_RADIUS ^ 2)) of
                     Some closest \<Rightarrow> Some closest
                   | None \<Rightarrow> Some snapped))"

section \<open>Application state\<close>

text \<open>
  The React state of \<^verbatim>\<open>CadViewport\<close> (the first six fields) and of \<^verbatim>\<open>DrawingPlane\<close> (the
  last six). Every handler runs on the state of the latest render and its state updates
  are applied together; an updater function is run once.
\<close>

record State =
  isDrawingMode :: bool
  snapGridEnabled :: bool
  segments :: "Segment list"
  history :: "Segment list list"
  redoStack :: "Segment list list"
  selectedId :: "string option"
  isDrawing :: bool
  startPoint :: "Point3 option"
  currentPoint :: "Point3 option"
  previewAngle :: "real option"
  previewBlocked :: bool
  canPlaceWall :: bool

definition initState :: State where
  "initState = \<lparr> isDrawingMode = False, snapGridEnabled = True, segments = [],
     history = [], redoStack = [], selectedId = None, isDrawing = False,
     startPoint = None, currentPoint = None, previewAngle = None,
     previewBlocked = False, canPlaceWall = True \<rparr>"

subsection \<open>History: \<^verbatim>\<open>CadViewport.tsx\<close>\<close>

definition pushHistory :: "Segment list \<Rightarrow> State \<Rightarrow> State" where
  "pushHistory next s =
     s\<lparr> history := history s @ [segments s], redoStack := [], segments := next \<rparr>"

definition handleUndo :: "State \<Rightarrow> State" where
  "handleUndo s =
     (if history s = [] then s
      else s\<lparr> redoStack := segments s # redoStack s,
              segments := last (history s),
              selectedId := None,
              history := butlast (history s) \<rparr>)"

definition handleRedo :: "State \<Rightarrow> State" where
  "handleRedo s =
     (case redoStack s of
        [] \<Rightarrow> s
      | next # rest \<Rightarrow>
          s\<lparr> history := history s @ [segments s],
             segments := next,
             selectedId := None,
             redoStack := rest \<rparr>)"

text \<open>\<^verbatim>\<open>!selectedId\<close> holds for \<^verbatim>\<open>null\<close> and for the empty string.\<close>

definition handleDeleteSelected :: "State \<Rightarrow> State" where
  "handleDeleteSelected s =
     (case selectedId s of
        None \<Rightarrow> s
      | Some sel \<Rightarrow>
          if sel = [] then s
          else (pushHistory (filter (\<lambda>x. seg_id x \<noteq> sel) (segments s)) s)\<lparr> selectedId := None \<rparr>)"

definition handleEnterDraw :: "State \<Rightarrow> State" where
  "handleEnterDraw s = s\<lparr> isDrawingMode := True, selectedId := None \<rparr>"

subsection \<open>Drawing session: \<^verbatim>\<open>DrawingPlane.tsx\<close>\<close>

definition resetDrawing :: "State \<Rightarrow> State" where
  "resetDrawing s =
     s\<lparr> isDrawing := False, startPoint := None, currentPoint := None,
        previewAngle := None, previewBlocked := False, canPlaceWall := True \<rparr>"

text \<open>
  \<^verbatim>\<open>setIsDrawingMode(false)\<close> (the Stop button and the Q key) followed by the effect on
  \<^verbatim>\<open>isDrawingMode\<close>, which runs when the flag has changed and resets the session.
\<close>

definition handleExitDraw :: "State \<Rightarrow> State" where
  "handleExitDraw s =
     (if isDrawingMode s then resetDrawing (s\<lparr> isDrawingMode := False \<rparr>) else s)"

definition handleToggleSnap :: "State \<Rightarrow> State" where
  "handleToggleSnap s = s\<lparr> snapGridEnabled := \<not> snapGridEnabled s \<rparr>"

text \<open>
  The \<^verbatim>\<open>onClick\<close> of the wall mesh of the segment at index \<open>i\<close> of the rendered list.
\<close>

definition handleWallClick :: "nat \<Rightarrow> State \<Rightarrow> State" where
  "handleWallClick i s =
     (if i < length (segments s) then
        (if isDrawingMode s then s
         else s\<lparr> selectedId :=
                   (if selectedId s = Some (seg_id (segments s ! i)) then None
                    else Some (seg_id (segments s ! i))) \<rparr>)
      else s)"

text \<open>
  The scan of \<^verbatim>\<open>handleClick\<close> for the hit with the smallest \<^verbatim>\<open>t\<close>, on the pair of
  \<^verbatim>\<open>bestHit\<close> and \<^verbatim>\<open>bestSeg\<close>.
\<close>

fun bestHitLoop ::
  "Point3 \<Rightarrow> Point3 \<Rightarrow> Segment list \<Rightarrow> ((Point3 \<times> real) \<times> Segment) option
     \<Rightarrow> ((Point3 \<times> real) \<times> Segment) option" where
  "bestHitLoop sp p [] best = best"
| "bestHitLoop sp p (seg # segs) best =
     (case segmentsIntersectionPoint2DWithT sp p (seg_start seg) (seg_end seg) of
        None \<Rightarrow> bestHitLoop sp p segs best
      | Some res \<Rightarrow>
          (case best of
             None \<Rightarrow> bestHitLoop sp p segs (Some (res, seg))
           | Some (bestHit, bestSeg) \<Rightarrow>
               if snd res < snd bestHit then bestHitLoop sp p segs (Some (res, seg))
               else bestHitLoop sp p segs best))"

text \<open>
  The T-junction edit of \<^verbatim>\<open>handleClick\<close>: the three new segments, with the values of the
  three calls of \<^verbatim>\<open>crypto.randomUUID()\<close> in the order of the calls, the \<^verbatim>\<open>flatMap\<close> on the
  id of the hit wall and the \<^verbatim>\<open>push\<close>.
\<close>

definition splitAndInsert ::
  "Segment list \<Rightarrow> Segment \<Rightarrow> Point3 \<Rightarrow> Point3 \<Rightarrow> string \<Rightarrow> string \<Rightarrow> string \<Rightarrow> Segment list" where
  "splitAndInsert segs bestSeg intersectionPoint startP u1 u2 u3 =
     (let snappedNewSeg = \<lparr> seg_id = u1, seg_start = startP, seg_end = intersectionPoint \<rparr>;
          segA = \<lparr> seg_id = u2, seg_start = seg_start bestSeg, seg_end = intersectionPoint \<rparr>;
          segB = \<lparr> seg_id = u3, seg_start = intersectionPoint, seg_end = seg_end bestSeg \<rparr>
      in concat (map (\<lambda>s. if seg_id s = seg_id bestSeg then [segA, segB] else [s]) segs)
           @ [snappedNewSeg])"

text \<open>
  \<^verbatim>\<open>handleClick\<close>. \<open>raw\<close> is the result of \<^verbatim>\<open>getPlaneIntersection\<close>; \<open>u1\<close>, \<open>u2\<close>, \<open>u3\<close> are
  what \<^verbatim>\<open>crypto.randomUUID()\<close> returns on its first, second and third call in this
  handler (the plain append makes one call).
\<close>

definition handleClick :: "Point3 option \<Rightarrow> string \<Rightarrow> string \<Rightarrow> string \<Rightarrow> State \<Rightarrow> State" where
  "handleClick raw u1 u2 u3 s =
     (if \<not> isDrawingMode s then s
      else
        (case applySnap (snapGridEnabled s) (snapPoints (segments s)) raw of
           None \<Rightarrow> s
         | Some p \<Rightarrow>
             if \<not> isDrawing s then
               s\<lparr> startPoint := Some p, currentPoint := Some p, isDrawing := True,
                  previewAngle := None, previewBlocked := False, canPlaceWall := True,
                  selectedId := None \<rparr>
             else
               (case startPoint s of
                  None \<Rightarrow> s
                | Some sp \<Rightarrow>
                    (case bestHitLoop sp p (segments s) None of
                       Some (bestHit, bestSeg) \<Rightarrow>
                         resetDrawing
                           (pushHistory
                              (splitAndInsert (segments s) bestSeg (snapToGrid (fst bestHit)) sp
                                 u1 u2 u3) s)
                     | None \<Rightarrow>
                         if \<not> canPlaceWall s then s
                         else
                           resetDrawing
                             (pushHistory
                                (segments s @ [\<lparr> seg_id = u1, seg_start = sp, seg_end = p \<rparr>])
                                s)))))"

text \<open>
  The search of \<^verbatim>\<open>handlePointerMove\<close> for the last wall of the list with an endpoint at
  \<open>b\<close> (\<open>x\<close> and \<open>z\<close> equal).
\<close>

definition touches :: "Point3 \<Rightarrow> Point3 \<Rightarrow> bool" where
  "touches q b = (fst q = fst b \<and> snd (snd q) = snd (snd b))"

definition lastTouching :: "Segment list \<Rightarrow> Point3 \<Rightarrow> Segment option" where
  "lastTouching segs b =
     find (\<lambda>seg. touches (seg_start seg) b \<or> touches (seg_end seg) b) (rev segs)"

text \<open>
  The angle part of \<^verbatim>\<open>handlePointerMove\<close>: \<open>farEndpoint\<close> is its \<^verbatim>\<open>a\<close>, \<open>anchorAngle\<close> the
  value it passes to \<^verbatim>\<open>setPreviewAngle\<close> (\<^verbatim>\<open>null\<close> when no wall touches the start point), and
  \<open>tooSharp\<close> its variable of that name, which stays false when no wall touches.
\<close>

definition farEndpoint :: "Segment \<Rightarrow> Point3 \<Rightarrow> Point3" where
  "farEndpoint w b = (if touches (seg_start w) b then seg_end w else seg_start w)"

definition anchorAngle :: "Segment list \<Rightarrow> Point3 \<Rightarrow> Point3 \<Rightarrow> real option" where
  "anchorAngle segs b p =
     (case lastTouching segs b of
        None \<Rightarrow> None
      | Some w \<Rightarrow> Some (angleAtVertexDot (farEndpoint w b) b p))"

definition tooSharp :: "real option \<Rightarrow> bool" where
  "tooSharp angle = (case angle of None \<Rightarrow> False | Some a \<Rightarrow> a < MIN_ANGLE_RAD)"

definition handlePointerMove :: "Point3 option \<Rightarrow> State \<Rightarrow> State" where
  "handlePointerMove raw s =
     (if \<not> isDrawingMode s \<or> \<not> isDrawing s then s
      else
        (case applySnap (snapGridEnabled s) (snapPoints (segments s)) raw of
           None \<Rightarrow> s
         | Some p \<Rightarrow>
             (case startPoint s of
                None \<Rightarrow> s\<lparr> currentPoint := Some p \<rparr>
              | Some b \<Rightarrow>
                  let angle = anchorAngle (segments s) b p;
                      intersects = wouldIntersectExistingWalls b p (segments s);
                      blocked = (tooSharp angle \<or> intersects)
                  in s\<lparr> currentPoint := Some p, previewAngle := angle,
                        previewBlocked := blocked, canPlaceWall := \<not> blocked \<rparr>)))"

subsection \<open>Events\<close>

datatype Event =
    EnterDraw
  | ExitDraw
  | ToggleSnapGrid
  | Undo
  | Redo
  | DeleteSelected
  | WallClick nat
  | PlaneClick "Point3 option" string string string
  | PlaneMove "Point3 option"

fun step :: "State \<Rightarrow> Event \<Rightarrow> State" where
  "step s EnterDraw = handleEnterDraw s"
| "step s ExitDraw = handleExitDraw s"
| "step s ToggleSnapGrid = handleToggleSnap s"
| "step s Undo = handleUndo s"
| "step s Redo = handleRedo s"
| "step s DeleteSelected = handleDeleteSelected s"
| "step s (WallClick i) = handleWallClick i s"
| "step s (PlaneClick raw u1 u2 u3) = handleClick raw u1 u2 u3 s"
| "step s (PlaneMove raw) = handlePointerMove raw s"

definition run :: "Event list \<Rightarrow> State" where
  "run es = foldl step initState es"

inductive reachable :: "State \<Rightarrow> bool" where
  reachable_init: "reachable initState"
| reachable_step: "reachable s \<Longrightarrow> reachable (step s e)"

subsection \<open>Commits and example scenes\<close>

text \<open>
  A sequence of commits: \<^verbatim>\<open>pushHistory\<close> called with each new wall list in turn, as the
  drawing commits and the deletion do.
\<close>

fun commits :: "Segment list list \<Rightarrow> State \<Rightarrow> State" where
  "commits [] s = s"
| "commits (n # ns) s = commits ns (pushHistory n s)"

text \<open>
  One wall along the x axis, and a session in drawing mode that started at \<open>(2, 0, -2)\<close>
  and whose preview is blocked.
\<close>

definition wallA :: Segment where
  "wallA = \<lparr> seg_id = ''a'', seg_start = (0, 0, 0), seg_end = (4, 0, 0) \<rparr>"

definition sceneB :: State where
  "sceneB = \<lparr> isDrawingMode = True, snapGridEnabled = True, segments = [wallA],
     history = [[]], redoStack = [], selectedId = None, isDrawing = True,
     startPoint = Some (2, 0, - 2), currentPoint = Some (2, 0, 2), previewAngle = None,
     previewBlocked = True, canPlaceWall = False \<rparr>"

text \<open>
  A second wall, and the events that draw both walls, leave drawing mode and undo the
  second commit: the redo stack then holds an entry and nothing is selected.
\<close>

definition wallC :: Segment where
  "wallC = \<lparr> seg_id = ''c'', seg_start = (4, 0, 0), seg_end = (4, 0, 3) \<rparr>"


text \<open>A short wall whose two endpoints are at the same distance from the origin.\<close>

definition wallT :: Segment where
  "wallT = \<lparr> seg_id = ''t'', seg_start = (1 / 4, 0, 0), seg_end = (- (1 / 4), 0, 0) \<rparr>"

text \<open>
  A session in drawing mode just after its start click at \<open>(2, 0, -2)\<close>, and the events
  that draw the wall \<open>wallA\<close>, leave drawing mode and select the wall.
\<close>

definition sceneStart :: State where
  "sceneStart = \<lparr> isDrawingMode = True, snapGridEnabled = True, segments = [wallA],
     history = [[]], redoStack = [], selectedId = None, isDrawing = True,
     startPoint = Some (2, 0, - 2), currentPoint = Some (2, 0, - 2), previewAngle = None,
     previewBlocked = False, canPlaceWall = True \<rparr>"

definition eventsA :: "Event list" where
  "eventsA = [EnterDraw, PlaneClick (Some (0, 0, 0)) ''s'' ''l'' ''r'',
              PlaneClick (Some (4, 0, 0)) ''a'' ''l'' ''r'', ExitDraw, WallClick 0]"

text \<open>
  Two sessions on the wall \<open>wallA\<close>: one drawing from its start vertex with the grid snap
  off, and one in drawing mode that has not started a placement.
\<close>

definition sceneK :: State where
  "sceneK = \<lparr> isDrawingMode = True, snapGridEnabled = False, segments = [wallA],
     history = [[]], redoStack = [], selectedId = None, isDrawing = True,
     startPoint = Some (0, 0, 0), currentPoint = Some (0, 0, 0), previewAngle = None,
     previewBlocked = False, canPlaceWall = True \<rparr>"

definition sceneIdle :: State where
  "sceneIdle = \<lparr> isDrawingMode = True, snapGridEnabled = True, segments = [wallA],
     history = [[]], redoStack = [], selectedId = None, isDrawing = False,
     startPoint = None, currentPoint = None, previewAngle = None,
     previewBlocked = False, canPlaceWall = True \<rparr>"

subsection \<open>The selection invariant\<close>

text \<open>
  The selection is \<^verbatim>\<open>null\<close> or the id of a wall of the list; and it is \<^verbatim>\<open>null\<close> in drawing
  mode, where the wall meshes ignore clicks.
\<close>

definition selectionOk :: "State \<Rightarrow> bool" where
  "selectionOk s =
     (case selectedId s of
        None \<Rightarrow> True
      | Some sel \<Rightarrow> list_ex (\<lambda>seg. seg_id seg = sel) (segments s))"

definition selInv :: "State \<Rightarrow> bool" where
  "selInv s = ((isDrawingMode s \<longrightarrow> selectedId s = None) \<and> selectionOk s)"

section \<open>Evaluation rules and the hit scan\<close>

lemmas eval_simps = wallA_def snapPoints_def applySnap_def distSq_def
  SNAP_RADIUS_def GRID_SIZE_def Math_round_def wouldIntersectExistingWalls_def
  Let_def power2_eq_square

lemmas handler_simps = handleEnterDraw_def handleExitDraw_def handleToggleSnap_def
  handleUndo_def handleRedo_def handleDeleteSelected_def handleWallClick_def handleClick_def
  handlePointerMove_def resetDrawing_def pushHistory_def initState_def

lemma bestHitLoop_Some: "bestHitLoop sp p segs (Some b) \<noteq> None"
proof (induction segs arbitrary: b)
  case Nil
  show ?case by simp
next
  case (Cons seg segs)
  show ?case
  proof (cases "segmentsIntersectionPoint2DWithT sp p (seg_start seg) (seg_end seg)")
    case None
    then show ?thesis using Cons.IH by simp
  next
    case (Some res)
    then show ?thesis using Cons.IH by (cases b) simp
  qed
qed

lemma bestHitLoop_None:
  "bestHitLoop sp p segs None = None \<longleftrightarrow> \<not> wouldIntersectExistingWalls sp p segs"
proof (induction segs)
  case Nil
  show ?case by (simp add: wouldIntersectExistingWalls_def)
next
  case (Cons seg segs)
  show ?case
  proof (cases "segmentsIntersectionPoint2DWithT sp p (seg_start seg) (seg_end seg)")
    case None
    then show ?thesis using Cons.IH by (simp add: wouldIntersectExistingWalls_def)
  next
    case (Some res)
    have "bestHitLoop sp p segs (Some (res, seg)) \<noteq> None"
      by (rule bestHitLoop_Some)
    with Some show ?thesis
      by (simp add: wouldIntersectExistingWalls_def)
  qed
qed

lemma bestHitLoop_mem:
  "bestHitLoop sp p segs best = Some r \<Longrightarrow>
     best = Some r \<or>
     (snd r \<in> set segs \<and>
      segmentsIntersectionPoint2DWithT sp p (seg_start (snd r)) (seg_end (snd r)) = Some (fst r))"
proof (induction segs arbitrary: best)
  case Nil
  then show ?case by simp
next
  case (Cons seg segs)
  show ?case
  proof (cases "segmentsIntersectionPoint2DWithT sp p (seg_start seg) (seg_end seg)")
    case None
    then show ?thesis using Cons.IH [of best] Cons.prems by auto
  next
    case (Some res)
    show ?thesis
    proof (cases best)
      case None
      then show ?thesis using Some Cons.IH [of "Some (res, seg)"] Cons.prems by auto
    next
      case (Some b)
      obtain bh bs where b: "b = (bh, bs)" by (cases b)
      show ?thesis
      proof (cases "snd res < snd bh")
        case True
        then show ?thesis
          using \<open>segmentsIntersectionPoint2DWithT sp p (seg_start seg) (seg_end seg) = Some res\<close>
            Some b Cons.IH [of "Some (res, seg)"] Cons.prems by auto
      next
        case False
        then show ?thesis
          using \<open>segmentsIntersectionPoint2DWithT sp p (seg_start seg) (seg_end seg) = Some res\<close>
            Some b Cons.IH [of best] Cons.prems by auto
      qed
    qed
  qed
qed

section \<open>Undo and redo\<close>

lemma redoStack_commits:
  "ns \<noteq> [] \<or> redoStack s = [] \<Longrightarrow> redoStack (commits ns s) = []"
proof (induction ns arbitrary: s)
  case Nil
  then show ?case by simp
next
  case (Cons n ns)
  have "redoStack (pushHistory n s) = []" by (simp add: pushHistory_def)
  then show ?case using Cons.IH [of "pushHistory n s"] by simp
qed

lemma undo_redo_general:
  assumes "redoStack s = []"
  shows "segments (handleRedo (handleUndo s)) = segments s
       \<and> history (handleRedo (handleUndo s)) = history s
       \<and> redoStack (handleRedo (handleUndo s)) = []"
  using assms by (simp add: handleUndo_def handleRedo_def)

text \<open>
  C5. After any sequence of commits (at least one, or from a state whose redo stack is
  empty, as the initial state), \<^verbatim>\<open>undo\<close> followed by \<^verbatim>\<open>redo\<close> gives back the wall list that
  was current before the undo, leaves the redo stack empty and the undo stack as it was
  before the undo.
\<close>

theorem undo_redo_roundtrip:
  assumes "ns \<noteq> [] \<or> redoStack s0 = []"
  shows "segments (handleRedo (handleUndo (commits ns s0))) = segments (commits ns s0)
       \<and> redoStack (handleRedo (handleUndo (commits ns s0))) = []
       \<and> history (handleRedo (handleUndo (commits ns s0))) = history (commits ns s0)"
  using undo_redo_general [OF redoStack_commits [OF assms]] by simp

theorem undo_redo_roundtrip_witness:
  "[[wallA]] \<noteq> []
   \<and> segments (handleRedo (handleUndo (commits [[wallA]] initState))) = [wallA]
   \<and> redoStack (handleRedo (handleUndo (commits [[wallA]] initState))) = []
   \<and> history (handleRedo (handleUndo (commits [[wallA]] initState))) = [[]]"
  using undo_redo_roundtrip [of "[[wallA]]" initState]
  by (simp add: pushHistory_def initState_def)

section \<open>The commit click\<close>

text \<open>
  C3. A click while drawing whose candidate segment properly intersects an existing wall
  takes the split path and commits it, whatever the values of the two block flags
  \<^verbatim>\<open>previewBlocked\<close> and \<^verbatim>\<open>canPlaceWall\<close>.
\<close>

theorem tjunction_bypasses_block:
  assumes "isDrawingMode s" and "isDrawing s" and "startPoint s = Some sp"
    and "applySnap (snapGridEnabled s) (snapPoints (segments s)) raw = Some p"
    and "wouldIntersectExistingWalls sp p (segments s)"
  shows "\<exists>bestHit bestSeg.
           bestHitLoop sp p (segments s) None = Some (bestHit, bestSeg)
         \<and> bestSeg \<in> set (segments s)
         \<and> handleClick raw u1 u2 u3 (s\<lparr> previewBlocked := blocked, canPlaceWall := can \<rparr>)
             = resetDrawing (pushHistory
                 (splitAndInsert (segments s) bestSeg (snapToGrid (fst bestHit)) sp u1 u2 u3) s)"
proof -
  from assms(5) obtain r where r: "bestHitLoop sp p (segments s) None = Some r"
    using bestHitLoop_None [of sp p "segments s"] by auto
  obtain bestHit bestSeg where br: "r = (bestHit, bestSeg)" by (cases r)
  have mem: "bestSeg \<in> set (segments s)"
    using bestHitLoop_mem [OF r] br by simp
  have "handleClick raw u1 u2 u3 (s\<lparr> previewBlocked := blocked, canPlaceWall := can \<rparr>)
          = resetDrawing (pushHistory
              (splitAndInsert (segments s) bestSeg (snapToGrid (fst bestHit)) sp u1 u2 u3) s)"
    using assms(1-4) r br by (simp add: handleClick_def resetDrawing_def pushHistory_def)
  with r br mem show ?thesis by blast
qed

theorem tjunction_bypasses_block_witness:
  "isDrawingMode sceneB \<and> isDrawing sceneB \<and> startPoint sceneB = Some (2, 0, - 2)
   \<and> applySnap (snapGridEnabled sceneB) (snapPoints (segments sceneB)) (Some (2, 0, 2))
       = Some (2, 0, 2)
   \<and> wouldIntersectExistingWalls (2, 0, - 2) (2, 0, 2) (segments sceneB)
   \<and> segments (handleClick (Some (2, 0, 2)) ''n'' ''l'' ''r''
        (sceneB\<lparr> previewBlocked := True, canPlaceWall := False \<rparr>))
       = [\<lparr> seg_id = ''l'', seg_start = (0, 0, 0), seg_end = (2, 0, 0) \<rparr>,
          \<lparr> seg_id = ''r'', seg_start = (2, 0, 0), seg_end = (4, 0, 0) \<rparr>,
          \<lparr> seg_id = ''n'', seg_start = (2, 0, - 2), seg_end = (2, 0, 0) \<rparr>]"
proof -
  have h1: "isDrawingMode sceneB" and h2: "isDrawing sceneB"
    and h3: "startPoint sceneB = Some (2, 0, - 2)"
    by (simp_all add: sceneB_def)
  have h4: "applySnap (snapGridEnabled sceneB) (snapPoints (segments sceneB)) (Some (2, 0, 2))
              = Some (2, 0, 2)"
    by (simp add: sceneB_def eval_simps)
  have h5: "wouldIntersectExistingWalls (2, 0, - 2) (2, 0, 2) (segments sceneB)"
    by (simp add: sceneB_def eval_simps)
  have seg: "segments sceneB = [wallA]" by (simp add: sceneB_def)
  have hit: "bestHitLoop (2, 0, - 2) (2, 0, 2) [wallA] None = Some (((2, 0, 0), 1 / 2), wallA)"
    by (simp add: wallA_def)
  from tjunction_bypasses_block [OF h1 h2 h3 h4 h5,
      where ?u1.0 = "''n''" and ?u2.0 = "''l''" and ?u3.0 = "''r''"
        and blocked = True and can = False]
  obtain bestHit bestSeg where
    b: "bestHitLoop (2, 0, - 2) (2, 0, 2) (segments sceneB) None = Some (bestHit, bestSeg)"
    and c: "handleClick (Some (2, 0, 2)) ''n'' ''l'' ''r''
              (sceneB\<lparr> previewBlocked := True, canPlaceWall := False \<rparr>)
            = resetDrawing (pushHistory
                (splitAndInsert (segments sceneB) bestSeg (snapToGrid (fst bestHit)) (2, 0, - 2)
                   ''n'' ''l'' ''r'') sceneB)"
    by blast
  from b have "bestHit = ((2, 0, 0), 1 / 2)" and "bestSeg = wallA"
    unfolding seg hit by simp_all
  with c have "segments (handleClick (Some (2, 0, 2)) ''n'' ''l'' ''r''
          (sceneB\<lparr> previewBlocked := True, canPlaceWall := False \<rparr>))
        = splitAndInsert [wallA] wallA (snapToGrid (2, 0, 0)) (2, 0, - 2) ''n'' ''l'' ''r''"
    by (simp add: seg resetDrawing_def pushHistory_def)
  also have "\<dots> = [\<lparr> seg_id = ''l'', seg_start = (0, 0, 0), seg_end = (2, 0, 0) \<rparr>,
          \<lparr> seg_id = ''r'', seg_start = (2, 0, 0), seg_end = (4, 0, 0) \<rparr>,
          \<lparr> seg_id = ''n'', seg_start = (2, 0, - 2), seg_end = (2, 0, 0) \<rparr>]"
    by (simp add: splitAndInsert_def wallA_def GRID_SIZE_def Math_round_def)
  finally show ?thesis using h1 h2 h3 h4 h5 by simp
qed

text \<open>
  The two block flags are set together: in every reachable state \<^verbatim>\<open>canPlaceWall\<close> is the
  negation of \<^verbatim>\<open>previewBlocked\<close>.
\<close>

lemma flags_step:
  "canPlaceWall s = (\<not> previewBlocked s) \<Longrightarrow>
     canPlaceWall (step s e) = (\<not> previewBlocked (step s e))"
proof (cases e)
  case (PlaneClick raw u1 u2 u3)
  assume "canPlaceWall s = (\<not> previewBlocked s)"
  then show ?thesis
    unfolding PlaneClick
    by (simp add: handleClick_def resetDrawing_def pushHistory_def
        split: option.splits prod.splits)
next
  case (PlaneMove raw)
  assume "canPlaceWall s = (\<not> previewBlocked s)"
  then show ?thesis
    unfolding PlaneMove
    by (simp add: handlePointerMove_def Let_def split: option.splits)
qed (simp_all add: handler_simps split: option.splits list.splits)

lemma blocked_flags_agree: "reachable s \<Longrightarrow> canPlaceWall s = (\<not> previewBlocked s)"
  by (induction rule: reachable.induct) (simp_all add: initState_def flags_step)

text \<open>
  C8. A click while drawing with the placement blocked (\<^verbatim>\<open>canPlaceWall\<close> false, the flag the
  handler reads) and no proper intersection with any wall changes nothing: no segment, no
  history entry, and the session state as it was.
\<close>

theorem blocked_click_noop:
  assumes "isDrawingMode s" and "isDrawing s" and "startPoint s = Some sp"
    and "applySnap (snapGridEnabled s) (snapPoints (segments s)) raw = Some p"
    and "\<not> wouldIntersectExistingWalls sp p (segments s)"
    and "\<not> canPlaceWall s"
  shows "handleClick raw u1 u2 u3 s = s"
  using assms bestHitLoop_None [of sp p "segments s"] by (simp add: handleClick_def)

theorem blocked_click_noop_witness:
  "isDrawingMode sceneB \<and> isDrawing sceneB \<and> startPoint sceneB = Some (2, 0, - 2)
   \<and> applySnap (snapGridEnabled sceneB) (snapPoints (segments sceneB)) (Some (2, 0, - 1))
       = Some (2, 0, - 1)
   \<and> \<not> wouldIntersectExistingWalls (2, 0, - 2) (2, 0, - 1) (segments sceneB)
   \<and> \<not> canPlaceWall sceneB
   \<and> handleClick (Some (2, 0, - 1)) ''n'' ''l'' ''r'' sceneB = sceneB"
proof -
  have h1: "isDrawingMode sceneB" and h2: "isDrawing sceneB"
    and h3: "startPoint sceneB = Some (2, 0, - 2)" and h6: "\<not> canPlaceWall sceneB"
    by (simp_all add: sceneB_def)
  have h4: "applySnap (snapGridEnabled sceneB) (snapPoints (segments sceneB)) (Some (2, 0, - 1))
              = Some (2, 0, - 1)"
    by (simp add: sceneB_def eval_simps)
  have h5: "\<not> wouldIntersectExistingWalls (2, 0, - 2) (2, 0, - 1) (segments sceneB)"
    by (simp add: sceneB_def eval_simps)
  show ?thesis
    using h1 h2 h3 h4 h5 h6 blocked_click_noop [OF h1 h2 h3 h4 h5 h6, of "''n''" "''l''" "''r''"]
    by simp
qed

section \<open>The T-junction split\<close>

lemma concat_map_other_ids:
  "\<forall>x \<in> set xs. seg_id x \<noteq> k \<Longrightarrow>
     concat (map (\<lambda>s. if seg_id s = k then ys else [s]) xs) = xs"
  by (induction xs) auto

text \<open>
  C6. On a wall list with distinct ids, splitting the wall at index \<open>i\<close> at the point \<open>X\<close>
  for a new wall starting at \<open>S\<close> puts the two segments \<open>target.start \<rightarrow> X\<close> and
  \<open>X \<rightarrow> target.end\<close> in the place of the target, leaves every other wall where and as it
  was, appends the segment \<open>S \<rightarrow> X\<close>, and so makes the list longer by two.
\<close>

theorem split_invariant:
  assumes "distinct (map seg_id walls)" and "i < length walls" and "target = walls ! i"
  shows "splitAndInsert walls target X S u1 u2 u3
           = take i walls
             @ [\<lparr> seg_id = u2, seg_start = seg_start target, seg_end = X \<rparr>,
                \<lparr> seg_id = u3, seg_start = X, seg_end = seg_end target \<rparr>]
             @ drop (Suc i) walls
             @ [\<lparr> seg_id = u1, seg_start = S, seg_end = X \<rparr>]
         \<and> length (splitAndInsert walls target X S u1 u2 u3) = length walls + 2"
proof -
  let ?k = "seg_id target"
  let ?f = "\<lambda>s. if seg_id s = ?k
               then [\<lparr> seg_id = u2, seg_start = seg_start target, seg_end = X \<rparr>,
                     \<lparr> seg_id = u3, seg_start = X, seg_end = seg_end target \<rparr>]
               else [s]"
  have split: "walls = take i walls @ target # drop (Suc i) walls"
    using assms(2,3) by (simp add: id_take_nth_drop)
  have d: "distinct (map seg_id (take i walls @ target # drop (Suc i) walls))"
    using assms(1) split by simp
  have before: "\<forall>x \<in> set (take i walls). seg_id x \<noteq> ?k"
    using d by (auto simp add: image_iff)
  have after: "\<forall>x \<in> set (drop (Suc i) walls). seg_id x \<noteq> ?k"
    using d by (auto simp add: image_iff)
  have "concat (map ?f walls)
          = concat (map ?f (take i walls)) @ ?f target @ concat (map ?f (drop (Suc i) walls))"
    by (subst split) simp
  also have "\<dots> = take i walls @ ?f target @ drop (Suc i) walls"
    using concat_map_other_ids [OF before] concat_map_other_ids [OF after] by simp
  finally have eq: "concat (map ?f walls) = take i walls @ ?f target @ drop (Suc i) walls" .
  have first: "splitAndInsert walls target X S u1 u2 u3
           = take i walls
             @ [\<lparr> seg_id = u2, seg_start = seg_start target, seg_end = X \<rparr>,
                \<lparr> seg_id = u3, seg_start = X, seg_end = seg_end target \<rparr>]
             @ drop (Suc i) walls
             @ [\<lparr> seg_id = u1, seg_start = S, seg_end = X \<rparr>]"
    unfolding splitAndInsert_def Let_def eq by simp
  have "length (take i walls) + length (drop (Suc i) walls) + 1 = length walls"
    using assms(2) by simp
  then have "length (splitAndInsert walls target X S u1 u2 u3) = length walls + 2"
    unfolding first by simp
  with first show ?thesis by blast
qed

theorem split_invariant_witness:
  "distinct (map seg_id [wallA, wallC]) \<and> (0::nat) < length [wallA, wallC]
   \<and> wallA = [wallA, wallC] ! 0
   \<and> splitAndInsert [wallA, wallC] wallA (2, 0, 0) (2, 0, - 2) ''n'' ''l'' ''r''
       = [\<lparr> seg_id = ''l'', seg_start = (0, 0, 0), seg_end = (2, 0, 0) \<rparr>,
          \<lparr> seg_id = ''r'', seg_start = (2, 0, 0), seg_end = (4, 0, 0) \<rparr>,
          wallC,
          \<lparr> seg_id = ''n'', seg_start = (2, 0, - 2), seg_end = (2, 0, 0) \<rparr>]
   \<and> length (splitAndInsert [wallA, wallC] wallA (2, 0, 0) (2, 0, - 2) ''n'' ''l'' ''r'') = 4"
proof -
  have h1: "distinct (map seg_id [wallA, wallC])"
    by (simp add: wallA_def wallC_def)
  have h2: "(0::nat) < length [wallA, wallC]" by simp
  have h3: "wallA = [wallA, wallC] ! 0" by simp
  have ends: "seg_start wallA = (0, 0, 0)" "seg_end wallA = (4, 0, 0)"
    by (simp_all add: wallA_def)
  show ?thesis
    using h1 h2 h3 split_invariant [OF h1 h2 h3, of "(2, 0, 0)" "(2, 0, - 2)" "''n''" "''l''" "''r''"]
    by (simp add: ends)
qed

section \<open>Vertex snapping\<close>

text \<open>
  The loop handles one more snap point by comparing it with the minimum so far, and with
  \<open>\<le>\<close> an equal distance replaces the candidate held.
\<close>

lemma snapLoop_snoc:
  "snapLoop snapped (xs @ [x]) acc =
     (if distSq snapped x \<le> snd (snapLoop snapped xs acc)
      then (Some x, distSq snapped x)
      else snapLoop snapped xs acc)"
proof (induction xs arbitrary: acc)
  case Nil
  show ?case by (cases acc) simp
next
  case (Cons y ys)
  show ?case by (cases acc) (simp add: Cons.IH)
qed

lemma snapLoop_invariant:
  "snd (snapLoop snapped xs (None, r)) \<le> r
   \<and> (\<forall>x \<in> set xs. distSq snapped x \<le> r \<longrightarrow> snd (snapLoop snapped xs (None, r)) \<le> distSq snapped x)
   \<and> (fst (snapLoop snapped xs (None, r)) = None \<longrightarrow>
          snd (snapLoop snapped xs (None, r)) = r \<and> (\<forall>x \<in> set xs. r < distSq snapped x))
   \<and> (\<forall>y. fst (snapLoop snapped xs (None, r)) = Some y \<longrightarrow>
          y \<in> set xs
        \<and> distSq snapped y = snd (snapLoop snapped xs (None, r))
        \<and> y = last (filter (\<lambda>x. distSq snapped x = snd (snapLoop snapped xs (None, r))) xs))"
proof (induction xs rule: rev_induct)
  case Nil
  show ?case by simp
next
  case (snoc x xs)
  let ?old = "snapLoop snapped xs (None, r)"
  show ?case
  proof (cases "distSq snapped x \<le> snd ?old")
    case True
    then have new: "snapLoop snapped (xs @ [x]) (None, r) = (Some x, distSq snapped x)"
      by (simp add: snapLoop_snoc)
    from True snoc.IH show ?thesis
      unfolding new by auto
  next
    case False
    then have new: "snapLoop snapped (xs @ [x]) (None, r) = ?old"
      by (simp add: snapLoop_snoc)
    from False snoc.IH show ?thesis
      unfolding new by auto
  qed
qed

text \<open>
  C2, as stated, fails: the two endpoints of the wall \<open>wallT\<close> are both at squared distance
  \<open>1/16\<close> from the grid-snapped point \<open>(0, 0, 0)\<close>, within the radius; the first of them in
  iteration order is \<open>(1/4, 0, 0)\<close>, and \<^verbatim>\<open>applySnap\<close> returns the second, \<open>(-1/4, 0, 0)\<close>.
\<close>

theorem applySnap_tie_first_counterexample:
  "snapPoints [wallT] = [(1 / 4, 0, 0), (- (1 / 4), 0, 0)]
   \<and> snapToGrid (0, 0, 0) = (0, 0, 0)
   \<and> distSq (0, 0, 0) (1 / 4, 0, 0) = 1 / 16
   \<and> distSq (0, 0, 0) (- (1 / 4), 0, 0) = 1 / 16
   \<and> 1 / 16 \<le> SNAP_RADIUS ^ 2
   \<and> find (\<lambda>x. distSq (0, 0, 0) x = 1 / 16) (snapPoints [wallT]) = Some (1 / 4, 0, 0)
   \<and> applySnap True (snapPoints [wallT]) (Some (0, 0, 0)) = Some (- (1 / 4), 0, 0)"
  by (simp add: wallT_def eval_simps)

text \<open>
  C2, amended. When a snap point \<open>c\<close> is at the minimal squared distance from the
  grid-snapped point and that distance is at most \<open>SNAP_RADIUS\<^sup>2\<close>, \<^verbatim>\<open>applySnap\<close> returns the
  last snap point in iteration order that is at this minimal distance.
\<close>

theorem applySnap_tie_last:
  assumes "c \<in> set sps"
    and "\<forall>x \<in> set sps. distSq snapped c \<le> distSq snapped x"
    and "distSq snapped c \<le> SNAP_RADIUS ^ 2"
    and "snapped = (if grid then snapToGrid q else q)"
  shows "applySnap grid sps (Some q)
           = Some (last (filter (\<lambda>x. distSq snapped x = distSq snapped c) sps))"
proof -
  let ?res = "snapLoop snapped sps (None, SNAP_RADIUS ^ 2)"
  note inv = snapLoop_invariant [of snapped sps "SNAP_RADIUS ^ 2"]
  have le: "snd ?res \<le> distSq snapped c"
    using inv assms(1,3) by blast
  have "fst ?res \<noteq> None"
  proof
    assume "fst ?res = None"
    then have "SNAP_RADIUS ^ 2 < distSq snapped c" using inv assms(1) by blast
    with assms(3) show False by simp
  qed
  then obtain y where y: "fst ?res = Some y" by blast
  then have my: "y \<in> set sps" and dy: "distSq snapped y = snd ?res"
    and ly: "y = last (filter (\<lambda>x. distSq snapped x = snd ?res) sps)"
    using inv by blast+
  have "distSq snapped c \<le> distSq snapped y"
    using assms(2) my by blast
  with le dy have m: "snd ?res = distSq snapped c" by simp
  have "sps \<noteq> []" using assms(1) by auto
  then show ?thesis
    using y ly m assms(4) by (simp add: applySnap_def Let_def)
qed

theorem applySnap_tie_last_witness:
  "(1 / 4, 0, 0) \<in> set (snapPoints [wallT])
   \<and> list_all (\<lambda>x. distSq (0, 0, 0) (1 / 4, 0, 0) \<le> distSq (0, 0, 0) x) (snapPoints [wallT])
   \<and> distSq (0, 0, 0) (1 / 4, 0, 0) \<le> SNAP_RADIUS ^ 2
   \<and> applySnap True (snapPoints [wallT]) (Some (0, 0, 0))
       = Some (last (filter (\<lambda>x. distSq (0, 0, 0) x = distSq (0, 0, 0) (1 / 4, 0, 0))
                      (snapPoints [wallT])))
   \<and> last (filter (\<lambda>x. distSq (0, 0, 0) x = distSq (0, 0, 0) (1 / 4, 0, 0))
                      (snapPoints [wallT])) = (- (1 / 4), 0, 0)"
proof -
  have sp: "snapPoints [wallT] = [(1 / 4, 0, 0), (- (1 / 4), 0, 0)]"
    by (simp add: wallT_def snapPoints_def)
  have h1: "(1 / 4, 0, 0) \<in> set (snapPoints [wallT])"
    by (simp add: sp)
  have h2: "\<forall>x \<in> set (snapPoints [wallT]). distSq (0, 0, 0) (1 / 4, 0, 0) \<le> distSq (0, 0, 0) x"
    by (simp add: sp distSq_def)
  have h3: "distSq (0, 0, 0) (1 / 4, 0, 0) \<le> SNAP_RADIUS ^ 2"
    by (simp add: distSq_def SNAP_RADIUS_def power2_eq_square)
  have h4: "(0, 0, 0) = (if True then snapToGrid (0, 0, 0) else (0, 0, 0))"
    by (simp add: GRID_SIZE_def Math_round_def)
  have l: "last (filter (\<lambda>x. distSq (0, 0, 0) x = distSq (0, 0, 0) (1 / 4, 0, 0))
                      (snapPoints [wallT])) = (- (1 / 4), 0, 0)"
    by (simp add: sp distSq_def)
  show ?thesis
    using h1 h2 h3 l applySnap_tie_last [OF h1 h2 h3 h4]
    by (simp add: list_all_iff)
qed

section \<open>Degenerate segments\<close>

text \<open>
  C1, as stated, fails. Two clicks at the same point, from the empty wall list, commit a
  segment whose start and end are equal. And the split of the wall from \<open>(0, 0, 0)\<close> to
  \<open>(4, 0, 0)\<close> by a candidate that crosses it at \<open>(1/28, 0, 0)\<close>, a point that the grid snaps
  to \<open>(0, 0, 0)\<close>, inserts the replacement segment from \<open>(0, 0, 0)\<close> to \<open>(0, 0, 0)\<close>.
\<close>

theorem degenerate_segments_counterexample:
  "segments (run [EnterDraw, PlaneClick (Some (0, 0, 0)) ''s'' ''l'' ''r'',
                  PlaneClick (Some (0, 0, 0)) ''d'' ''l'' ''r''])
     = [\<lparr> seg_id = ''d'', seg_start = (0, 0, 0), seg_end = (0, 0, 0) \<rparr>]
   \<and> segments (run [EnterDraw, PlaneClick (Some (0, 0, 0)) ''s'' ''l'' ''r'',
                  PlaneClick (Some (4, 0, 0)) ''a'' ''l'' ''r'',
                  PlaneClick (Some (- (1 / 4), 0, - 1)) ''s'' ''l'' ''r'',
                  PlaneClick (Some (1 / 4, 0, 3 / 4)) ''n'' ''l'' ''r''])
     = [\<lparr> seg_id = ''l'', seg_start = (0, 0, 0), seg_end = (0, 0, 0) \<rparr>,
        \<lparr> seg_id = ''r'', seg_start = (0, 0, 0), seg_end = (4, 0, 0) \<rparr>,
        \<lparr> seg_id = ''n'', seg_start = (- (1 / 4), 0, - 1), seg_end = (0, 0, 0) \<rparr>]"
  by (simp add: run_def handler_simps eval_simps splitAndInsert_def)

text \<open>A candidate of length zero has no proper intersection: its denominator is zero.\<close>

lemma no_hit_zero_length: "segmentsIntersectionPoint2DWithT p p q r = None"
  by (cases p; cases q; cases r) simp

lemma no_hit_degenerate: "\<not> wouldIntersectExistingWalls sp sp segs"
  by (simp add: wouldIntersectExistingWalls_def no_hit_zero_length list_ex_iff)

text \<open>
  C1, amended. The commit click checks no length: while drawing, with the placement not
  blocked and no proper intersection, it appends the segment from the start point to the
  snapped click point and commits it, for every click point; and the click point equal to
  the start point always passes the intersection test.
\<close>

theorem commit_append_any_length:
  assumes "isDrawingMode s" and "isDrawing s" and "startPoint s = Some sp"
    and "applySnap (snapGridEnabled s) (snapPoints (segments s)) raw = Some p"
    and "\<not> wouldIntersectExistingWalls sp p (segments s)"
    and "canPlaceWall s"
  shows "handleClick raw u1 u2 u3 s
           = resetDrawing (pushHistory
               (segments s @ [\<lparr> seg_id = u1, seg_start = sp, seg_end = p \<rparr>]) s)
       \<and> \<not> wouldIntersectExistingWalls sp sp (segments s)"
  using assms bestHitLoop_None [of sp p "segments s"] no_hit_degenerate [of sp "segments s"]
  by (simp add: handleClick_def)

theorem commit_append_any_length_witness:
  "isDrawingMode sceneStart \<and> isDrawing sceneStart \<and> startPoint sceneStart = Some (2, 0, - 2)
   \<and> applySnap (snapGridEnabled sceneStart) (snapPoints (segments sceneStart))
        (Some (2, 0, - 2)) = Some (2, 0, - 2)
   \<and> \<not> wouldIntersectExistingWalls (2, 0, - 2) (2, 0, - 2) (segments sceneStart)
   \<and> canPlaceWall sceneStart
   \<and> segments (handleClick (Some (2, 0, - 2)) ''d'' ''l'' ''r'' sceneStart)
       = [wallA, \<lparr> seg_id = ''d'', seg_start = (2, 0, - 2), seg_end = (2, 0, - 2) \<rparr>]"
proof -
  have h1: "isDrawingMode sceneStart" and h2: "isDrawing sceneStart"
    and h3: "startPoint sceneStart = Some (2, 0, - 2)" and h6: "canPlaceWall sceneStart"
    by (simp_all add: sceneStart_def)
  have h4: "applySnap (snapGridEnabled sceneStart) (snapPoints (segments sceneStart))
              (Some (2, 0, - 2)) = Some (2, 0, - 2)"
    by (simp add: sceneStart_def eval_simps)
  have h5: "\<not> wouldIntersectExistingWalls (2, 0, - 2) (2, 0, - 2) (segments sceneStart)"
    by (simp add: sceneStart_def eval_simps)
  have seg: "segments sceneStart = [wallA]" by (simp add: sceneStart_def)
  show ?thesis
    using h1 h2 h3 h4 h5 h6
      commit_append_any_length [OF h1 h2 h3 h4 h5 h6, of "''d''" "''l''" "''r''"]
    by (simp add: seg resetDrawing_def pushHistory_def)
qed

section \<open>The selection\<close>

lemma selectionOk_None: "selectedId s = None \<Longrightarrow> selectionOk s"
  by (simp add: selectionOk_def)

lemma selInv_None: "selectedId s = None \<Longrightarrow> selInv s"
  by (simp add: selInv_def selectionOk_def)

lemma selInv_init: "selInv initState"
  by (simp add: selInv_None initState_def)

lemma selInv_handleEnterDraw: "selInv (handleEnterDraw s)"
  by (simp add: selInv_None handleEnterDraw_def)

lemma selInv_handleExitDraw: "selInv s \<Longrightarrow> selInv (handleExitDraw s)"
  by (simp add: selInv_def selectionOk_def handleExitDraw_def resetDrawing_def
      split: option.splits)

lemma selInv_handleToggleSnap: "selInv s \<Longrightarrow> selInv (handleToggleSnap s)"
  by (simp add: selInv_def selectionOk_def handleToggleSnap_def split: option.splits)

lemma selInv_handleUndo: "selInv s \<Longrightarrow> selInv (handleUndo s)"
  by (cases "history s = []") (simp_all add: handleUndo_def selInv_None)

lemma selInv_handleRedo: "selInv s \<Longrightarrow> selInv (handleRedo s)"
  by (cases "redoStack s") (simp_all add: handleRedo_def selInv_None)

lemma selInv_handleDeleteSelected: "selInv s \<Longrightarrow> selInv (handleDeleteSelected s)"
proof (cases "selectedId s")
  case None
  assume "selInv s"
  with None show ?thesis by (simp add: handleDeleteSelected_def)
next
  case (Some sel)
  assume "selInv s"
  with Some show ?thesis
    by (cases "sel = []") (simp_all add: handleDeleteSelected_def selInv_None)
qed

lemma selInv_handleWallClick: "selInv s \<Longrightarrow> selInv (handleWallClick i s)"
  by (auto simp add: selInv_def selectionOk_def handleWallClick_def list_ex_iff)

lemma selInv_handlePointerMove: "selInv s \<Longrightarrow> selInv (handlePointerMove raw s)"
  by (simp add: selInv_def selectionOk_def handlePointerMove_def Let_def
      split: option.splits)

lemma selectedId_handleClick:
  "isDrawingMode s \<Longrightarrow> selectedId s = None \<Longrightarrow> selectedId (handleClick raw u1 u2 u3 s) = None"
  by (simp add: handleClick_def resetDrawing_def pushHistory_def split: option.splits prod.splits)

lemma isDrawingMode_handleClick:
  "isDrawingMode (handleClick raw u1 u2 u3 s) = isDrawingMode s"
  by (simp add: handleClick_def resetDrawing_def pushHistory_def split: option.splits prod.splits)

lemma selInv_handleClick: "selInv s \<Longrightarrow> selInv (handleClick raw u1 u2 u3 s)"
proof (cases "isDrawingMode s")
  case True
  assume "selInv s"
  with True have "selectedId s = None" by (simp add: selInv_def)
  with True show ?thesis by (simp add: selInv_None selectedId_handleClick)
next
  case False
  assume "selInv s"
  with False show ?thesis by (simp add: handleClick_def)
qed

lemma selInv_step: "selInv s \<Longrightarrow> selInv (step s e)"
  by (cases e)
     (simp_all add: selInv_handleEnterDraw selInv_handleExitDraw selInv_handleToggleSnap
        selInv_handleUndo selInv_handleRedo selInv_handleDeleteSelected selInv_handleWallClick
        selInv_handleClick selInv_handlePointerMove)

lemma reachable_selInv: "reachable s \<Longrightarrow> selInv s"
  by (induction rule: reachable.induct) (simp_all add: selInv_init selInv_step)

lemma reachable_foldl: "reachable s \<Longrightarrow> reachable (foldl step s es)"
  by (induction es arbitrary: s) (simp_all add: reachable_step)

lemma reachable_run: "reachable (run es)"
  by (simp add: run_def reachable_foldl reachable_init)

text \<open>
  C10. In every reachable state the selection is \<^verbatim>\<open>null\<close> or the id of a wall of the
  current list, and it is \<^verbatim>\<open>null\<close> in drawing mode (so a drawing commit leaves it
  \<^verbatim>\<open>null\<close>). Entering drawing mode, an undo, a redo and a deletion that change the wall
  list, and every plane click in drawing mode (the start click of a placement among them)
  leave the selection \<^verbatim>\<open>null\<close>.
\<close>

theorem selection_valid:
  assumes "reachable s"
  shows "(selectedId s = None \<or> (\<exists>seg \<in> set (segments s). selectedId s = Some (seg_id seg)))
       \<and> (isDrawingMode s \<longrightarrow> selectedId s = None)
       \<and> selectedId (handleEnterDraw s) = None
       \<and> (history s \<noteq> [] \<longrightarrow> selectedId (handleUndo s) = None)
       \<and> (redoStack s \<noteq> [] \<longrightarrow> selectedId (handleRedo s) = None)
       \<and> (segments (handleDeleteSelected s) \<noteq> segments s \<longrightarrow>
            selectedId (handleDeleteSelected s) = None)
       \<and> (isDrawingMode s \<longrightarrow> selectedId (handleClick raw u1 u2 u3 s) = None)"
proof -
  have inv: "selInv s" using assms by (rule reachable_selInv)
  have a: "selectedId s = None \<or> (\<exists>seg \<in> set (segments s). selectedId s = Some (seg_id seg))"
    using inv by (auto simp add: selInv_def selectionOk_def list_ex_iff split: option.splits)
  have b: "isDrawingMode s \<longrightarrow> selectedId s = None"
    using inv by (simp add: selInv_def)
  have c: "selectedId (handleEnterDraw s) = None"
    by (simp add: handleEnterDraw_def)
  have d: "history s \<noteq> [] \<longrightarrow> selectedId (handleUndo s) = None"
    by (simp add: handleUndo_def)
  have e: "redoStack s \<noteq> [] \<longrightarrow> selectedId (handleRedo s) = None"
    by (cases "redoStack s") (simp_all add: handleRedo_def)
  have f: "segments (handleDeleteSelected s) \<noteq> segments s \<longrightarrow>
            selectedId (handleDeleteSelected s) = None"
    by (simp add: handleDeleteSelected_def split: option.splits)
  have g: "isDrawingMode s \<longrightarrow> selectedId (handleClick raw u1 u2 u3 s) = None"
    using b by (simp add: selectedId_handleClick)
  from a b c d e f g show ?thesis by blast
qed

lemma run_eventsA:
  "run eventsA = initState\<lparr> segments := [wallA], history := [[]], selectedId := Some ''a'' \<rparr>"
  by (simp add: run_def eventsA_def handler_simps eval_simps)

theorem selection_valid_witness:
  "reachable (run eventsA)
   \<and> segments (run eventsA) = [wallA]
   \<and> selectedId (run eventsA) = Some ''a''
   \<and> (\<exists>seg \<in> set (segments (run eventsA)). selectedId (run eventsA) = Some (seg_id seg))
   \<and> \<not> isDrawingMode (run eventsA)
   \<and> selectedId (handleEnterDraw (run eventsA)) = None"
proof -
  have h: "reachable (run eventsA)" by (rule reachable_run)
  have "selectedId (run eventsA) \<noteq> None" by (simp add: run_eventsA)
  with selection_valid [OF h, of None "[]" "[]" "[]"]
  have "\<exists>seg \<in> set (segments (run eventsA)). selectedId (run eventsA) = Some (seg_id seg)"
    and "selectedId (handleEnterDraw (run eventsA)) = None"
    by blast+
  with h show ?thesis by (simp add: run_eventsA initState_def)
qed

section \<open>Deleting the selection\<close>





section \<open>The minimum angle\<close>

text \<open>
  The threshold is \<open>\<pi>/6\<close>; an angle computed from a cosine in \<open>[-1, 1]\<close> is below it exactly
  when the cosine is above \<open>\<surd>3/2\<close>.
\<close>

lemma MIN_ANGLE_RAD_eq: "MIN_ANGLE_RAD = pi / 6"
  by (simp add: MIN_ANGLE_RAD_def MIN_ANGLE_DEG_def)

lemma arccos_sqrt3_half: "arccos (sqrt 3 / 2) = pi / 6"
proof -
  have "arccos (cos (pi / 6)) = pi / 6"
    by (rule arccos_cos) simp_all
  then show ?thesis by (simp add: cos_30)
qed

lemma sqrt3_half_range: "0 \<le> sqrt 3 / 2 \<and> sqrt 3 / 2 \<le> 1"
proof -
  have "sqrt 3 \<le> 2" by (rule real_le_lsqrt) simp_all
  then show ?thesis by simp
qed

lemma sqrt3_half_bound: "\<bar>sqrt 3 / 2\<bar> \<le> 1"
  using sqrt3_half_range by simp

lemma arccos_less_pi6: "\<bar>x\<bar> \<le> 1 \<Longrightarrow> arccos x < pi / 6 \<longleftrightarrow> sqrt 3 / 2 < x"
  using arccos_less_mono [of x "sqrt 3 / 2"] sqrt3_half_bound
  by (simp add: arccos_sqrt3_half)

text \<open>
  C7. On a pointer move while drawing, when a wall touches the start point, the preview
  angle is the angle at the start point between the far endpoint of the last such wall and
  the pointer; \<open>tooSharp\<close> holds exactly when this angle is strictly below \<open>\<pi>/6\<close>, and the
  preview is blocked exactly when it is too sharp or the candidate intersects a wall. At
  exactly \<open>\<pi>/6\<close> the angle check does not block.
\<close>

theorem tooSharp_boundary:
  assumes "isDrawingMode s" and "isDrawing s" and "startPoint s = Some b"
    and "applySnap (snapGridEnabled s) (snapPoints (segments s)) raw = Some p"
    and "lastTouching (segments s) b = Some w"
    and "\<theta> = angleAtVertexDot (farEndpoint w b) b p"
  shows "previewAngle (handlePointerMove raw s) = Some \<theta>
       \<and> (tooSharp (previewAngle (handlePointerMove raw s)) \<longleftrightarrow> \<theta> < pi / 6)
       \<and> (previewBlocked (handlePointerMove raw s) \<longleftrightarrow>
            \<theta> < pi / 6 \<or> wouldIntersectExistingWalls b p (segments s))
       \<and> (canPlaceWall (handlePointerMove raw s) \<longleftrightarrow> \<not> previewBlocked (handlePointerMove raw s))"
  using assms
  by (simp add: handlePointerMove_def anchorAngle_def tooSharp_def MIN_ANGLE_RAD_eq Let_def)

text \<open>
  The pointer at \<open>(2\<surd>3, 0, 2)\<close>, from the start vertex of the wall along the x axis, is
  at exactly 30 degrees.
\<close>

lemma hypot_4_0: "Math_hypot 4 0 = 4"
proof -
  have "sqrt (4 * 4) = (4::real)" by (rule real_sqrt_unique) simp_all
  then show ?thesis by (simp add: Math_hypot_def)
qed

lemma hypot_30: "Math_hypot (2 * sqrt 3) 2 = 4"
proof -
  have "(2 * sqrt 3) * (2 * sqrt 3) + 2 * 2 = (16::real)" by simp
  moreover have "sqrt 16 = (4::real)" by (rule real_sqrt_unique) simp_all
  ultimately show ?thesis by (simp add: Math_hypot_def)
qed

lemma angle_30: "angleAtVertexDot (4, 0, 0) (0, 0, 0) (2 * sqrt 3, 0, 2) = pi / 6"
proof -
  have "angleAtVertexDot (4, 0, 0) (0, 0, 0) (2 * sqrt 3, 0, 2)
          = arccos (min 1 (max (- 1) (sqrt 3 / 2)))"
    by (simp add: hypot_4_0 hypot_30 Let_def)
  also have "\<dots> = arccos (sqrt 3 / 2)"
  proof -
    have "max (- 1) (sqrt 3 / 2) = sqrt 3 / 2"
      using sqrt3_half_range by (intro max_absorb2) linarith
    moreover have "min 1 (sqrt 3 / 2) = sqrt 3 / 2"
      using sqrt3_half_range by (intro min_absorb2) linarith
    ultimately show ?thesis by simp
  qed
  finally show ?thesis by (simp add: arccos_sqrt3_half)
qed

lemma snap_30:
  "applySnap (snapGridEnabled sceneK) (snapPoints (segments sceneK)) (Some (2 * sqrt 3, 0, 2))
     = Some (2 * sqrt 3, 0, 2)"
proof -
  have sq: "0 \<le> (4 - 2 * sqrt 3) * (4 - 2 * sqrt 3)" by (rule zero_le_square)
  have "distSq (2 * sqrt 3, 0, 2) (4, 0, 0) = (4 - 2 * sqrt 3) * (4 - 2 * sqrt 3) + 4"
    by (simp add: distSq_def Let_def)
  moreover have "(1 / 2) ^ 2 = (1 / 4 :: real)" by (simp add: power2_eq_square)
  ultimately have far: "\<not> distSq (2 * sqrt 3, 0, 2) (4, 0, 0) \<le> (1 / 2) ^ 2"
    using sq by linarith
  have near: "\<not> distSq (2 * sqrt 3, 0, 2) (0, 0, 0) \<le> (1 / 2) ^ 2"
    by (simp add: distSq_def Let_def power2_eq_square)
  show ?thesis
    using far near
    by (simp add: sceneK_def wallA_def snapPoints_def applySnap_def SNAP_RADIUS_def)
qed

lemma anchor_K: "lastTouching (segments sceneK) (0, 0, 0) = Some wallA
  \<and> farEndpoint wallA (0, 0, 0) = (4, 0, 0)"
  by (simp add: sceneK_def wallA_def lastTouching_def touches_def farEndpoint_def)

lemma no_hit_30:
  "\<not> wouldIntersectExistingWalls (0, 0, 0) (2 * sqrt 3, 0, 2) (segments sceneK)"
  by (simp add: sceneK_def wallA_def wouldIntersectExistingWalls_def)

theorem tooSharp_boundary_witness:
  "isDrawingMode sceneK \<and> isDrawing sceneK \<and> startPoint sceneK = Some (0, 0, 0)
   \<and> applySnap (snapGridEnabled sceneK) (snapPoints (segments sceneK)) (Some (2 * sqrt 3, 0, 2))
       = Some (2 * sqrt 3, 0, 2)
   \<and> lastTouching (segments sceneK) (0, 0, 0) = Some wallA
   \<and> angleAtVertexDot (farEndpoint wallA (0, 0, 0)) (0, 0, 0) (2 * sqrt 3, 0, 2) = pi / 6
   \<and> previewAngle (handlePointerMove (Some (2 * sqrt 3, 0, 2)) sceneK) = Some (pi / 6)
   \<and> \<not> tooSharp (previewAngle (handlePointerMove (Some (2 * sqrt 3, 0, 2)) sceneK))
   \<and> \<not> previewBlocked (handlePointerMove (Some (2 * sqrt 3, 0, 2)) sceneK)
   \<and> canPlaceWall (handlePointerMove (Some (2 * sqrt 3, 0, 2)) sceneK)"
proof -
  have h1: "isDrawingMode sceneK" and h2: "isDrawing sceneK"
    and h3: "startPoint sceneK = Some (0, 0, 0)"
    by (simp_all add: sceneK_def)
  note h4 = snap_30
  have h5: "lastTouching (segments sceneK) (0, 0, 0) = Some wallA"
    using anchor_K by simp
  have h6: "pi / 6 = angleAtVertexDot (farEndpoint wallA (0, 0, 0)) (0, 0, 0) (2 * sqrt 3, 0, 2)"
    using anchor_K angle_30 by simp
  let ?s' = "handlePointerMove (Some (2 * sqrt 3, 0, 2)) sceneK"
  from tooSharp_boundary [OF h1 h2 h3 h4 h5 h6]
  have a: "previewAngle ?s' = Some (pi / 6)"
    and b: "tooSharp (previewAngle ?s') \<longleftrightarrow> pi / 6 < pi / 6"
    and c: "previewBlocked ?s' \<longleftrightarrow>
              pi / 6 < pi / 6
              \<or> wouldIntersectExistingWalls (0, 0, 0) (2 * sqrt 3, 0, 2) (segments sceneK)"
    and d: "canPlaceWall ?s' \<longleftrightarrow> \<not> previewBlocked ?s'"
    by blast+
  from b have b': "\<not> tooSharp (previewAngle ?s')" by simp
  from c no_hit_30 have c': "\<not> previewBlocked ?s'" by simp
  from d c' have d': "canPlaceWall ?s'" by simp
  from h1 h2 h3 h4 h5 h6 [symmetric] a b' c' d' show ?thesis by blast
qed

section \<open>Two clicks with no pointer move between them\<close>

text \<open>
  C9. A start click followed at once by a commit click appends the segment between the
  two snapped points whenever it has no proper intersection, whatever the angle at the
  anchor: the start click sets \<^verbatim>\<open>canPlaceWall\<close> and only a pointer move could clear it. With
  a pointer move to the same point between the two clicks and an angle that is too sharp,
  the commit click changes nothing.
\<close>

theorem commit_without_move:
  assumes "isDrawingMode s" and "\<not> isDrawing s"
    and "applySnap (snapGridEnabled s) (snapPoints (segments s)) raw1 = Some b"
    and "applySnap (snapGridEnabled s) (snapPoints (segments s)) raw2 = Some p"
    and "\<not> wouldIntersectExistingWalls b p (segments s)"
  shows "canPlaceWall (handleClick raw1 v1 v2 v3 s)
       \<and> segments (handleClick raw2 u1 u2 u3 (handleClick raw1 v1 v2 v3 s))
           = segments s @ [\<lparr> seg_id = u1, seg_start = b, seg_end = p \<rparr>]
       \<and> history (handleClick raw2 u1 u2 u3 (handleClick raw1 v1 v2 v3 s))
           = history s @ [segments s]
       \<and> \<not> isDrawing (handleClick raw2 u1 u2 u3 (handleClick raw1 v1 v2 v3 s))
       \<and> (tooSharp (anchorAngle (segments s) b p) \<longrightarrow>
            handleClick raw2 u1 u2 u3 (handlePointerMove raw2 (handleClick raw1 v1 v2 v3 s))
              = handlePointerMove raw2 (handleClick raw1 v1 v2 v3 s))"
proof -
  let ?s1 = "handleClick raw1 v1 v2 v3 s"
  have s1: "?s1 = s\<lparr> startPoint := Some b, currentPoint := Some b, isDrawing := True,
                  previewAngle := None, previewBlocked := False, canPlaceWall := True,
                  selectedId := None \<rparr>"
    using assms(1-3) by (simp add: handleClick_def)
  have nohit: "bestHitLoop b p (segments s) None = None"
    using assms(5) by (simp add: bestHitLoop_None)
  have a: "canPlaceWall ?s1" by (simp add: s1)
  have click: "handleClick raw2 u1 u2 u3 ?s1
      = resetDrawing (pushHistory (segments s @ [\<lparr> seg_id = u1, seg_start = b, seg_end = p \<rparr>]) ?s1)"
    unfolding s1 using assms(1,4) nohit by (simp add: handleClick_def)
  have b: "segments (handleClick raw2 u1 u2 u3 ?s1)
           = segments s @ [\<lparr> seg_id = u1, seg_start = b, seg_end = p \<rparr>]"
    unfolding click by (simp add: resetDrawing_def pushHistory_def)
  have c: "history (handleClick raw2 u1 u2 u3 ?s1) = history s @ [segments s]"
    unfolding click by (simp add: resetDrawing_def pushHistory_def s1)
  have d: "\<not> isDrawing (handleClick raw2 u1 u2 u3 ?s1)"
    unfolding click by (simp add: resetDrawing_def pushHistory_def)
  have e: "tooSharp (anchorAngle (segments s) b p) \<longrightarrow>
            handleClick raw2 u1 u2 u3 (handlePointerMove raw2 ?s1) = handlePointerMove raw2 ?s1"
  proof
    assume sharp: "tooSharp (anchorAngle (segments s) b p)"
    let ?r = "s\<lparr> startPoint := Some b, currentPoint := Some b, isDrawing := True,
                  previewAngle := None, previewBlocked := False, canPlaceWall := True,
                  selectedId := None \<rparr>"
    have mv: "handlePointerMove raw2 ?r
        = ?r\<lparr> currentPoint := Some p, previewAngle := anchorAngle (segments s) b p,
               previewBlocked := True, canPlaceWall := False \<rparr>"
      using assms(1,4) sharp by (simp add: handlePointerMove_def Let_def)
    have "handleClick raw2 u1 u2 u3 (handlePointerMove raw2 ?r) = handlePointerMove raw2 ?r"
      unfolding mv using assms(1,4) nohit by (simp add: handleClick_def)
    then show "handleClick raw2 u1 u2 u3 (handlePointerMove raw2 ?s1) = handlePointerMove raw2 ?s1"
      unfolding s1 .
  qed
  from a b c d e show ?thesis by blast
qed

text \<open>
  From the end vertex \<open>(4, 0, 0)\<close> of the wall to \<open>(0, 0, 1)\<close>: the angle with the wall has
  cosine \<open>4/\<surd>17\<close>, about 14 degrees.
\<close>

lemma cos_14_bound: "0 \<le> 4 / sqrt 17 \<and> 4 / sqrt 17 \<le> 1 \<and> sqrt 3 / 2 < 4 / sqrt 17"
proof -
  have pos: "0 < sqrt 17" by simp
  have ge: "4 \<le> sqrt 17" by (rule real_le_rsqrt) simp
  have "sqrt 3 * sqrt 17 = sqrt 51" by (simp add: real_sqrt_mult [symmetric])
  moreover have "sqrt 51 < 8" by (rule real_less_lsqrt) simp_all
  ultimately have lt: "sqrt 3 * sqrt 17 < 8" by simp
  have a: "0 \<le> 4 / sqrt 17" using pos by simp
  have b: "4 / sqrt 17 \<le> 1" using pos ge by (simp add: field_simps)
  have c: "sqrt 3 / 2 < 4 / sqrt 17" using pos lt by (simp add: field_simps)
  from a b c show ?thesis by blast
qed

lemma sharp_idle: "tooSharp (anchorAngle (segments sceneIdle) (4, 0, 0) (0, 0, 1))"
proof -
  have anchor: "lastTouching (segments sceneIdle) (4, 0, 0) = Some wallA"
    and far: "farEndpoint wallA (4, 0, 0) = (0, 0, 0)"
    by (simp_all add: sceneIdle_def wallA_def lastTouching_def touches_def farEndpoint_def)
  have lenU: "Math_hypot (- 4) 0 = 4"
  proof -
    have "sqrt (4 * 4) = (4::real)" by (rule real_sqrt_unique) simp_all
    then show ?thesis by (simp add: Math_hypot_def)
  qed
  have lenV: "Math_hypot (- 4) 1 = sqrt 17"
    by (simp add: Math_hypot_def)
  have "angleAtVertexDot (0, 0, 0) (4, 0, 0) (0, 0, 1)
          = arccos (min 1 (max (- 1) (4 / sqrt 17)))"
    by (simp add: lenU lenV Let_def)
  moreover have "max (- 1) (4 / sqrt 17) = 4 / sqrt 17"
    using cos_14_bound by (intro max_absorb2) linarith
  moreover have "min 1 (4 / sqrt 17) = 4 / sqrt 17"
    using cos_14_bound by (intro min_absorb2) linarith
  ultimately have "angleAtVertexDot (0, 0, 0) (4, 0, 0) (0, 0, 1) = arccos (4 / sqrt 17)"
    by simp
  moreover have "arccos (4 / sqrt 17) < pi / 6"
    using cos_14_bound by (subst arccos_less_pi6) simp_all
  ultimately show ?thesis
    by (simp add: anchorAngle_def anchor far tooSharp_def MIN_ANGLE_RAD_eq)
qed

theorem commit_without_move_witness:
  "isDrawingMode sceneIdle \<and> \<not> isDrawing sceneIdle
   \<and> applySnap (snapGridEnabled sceneIdle) (snapPoints (segments sceneIdle)) (Some (4, 0, 0))
       = Some (4, 0, 0)
   \<and> applySnap (snapGridEnabled sceneIdle) (snapPoints (segments sceneIdle)) (Some (0, 0, 1))
       = Some (0, 0, 1)
   \<and> \<not> wouldIntersectExistingWalls (4, 0, 0) (0, 0, 1) (segments sceneIdle)
   \<and> tooSharp (anchorAngle (segments sceneIdle) (4, 0, 0) (0, 0, 1))
   \<and> segments (handleClick (Some (0, 0, 1)) ''n'' ''l'' ''r''
        (handleClick (Some (4, 0, 0)) ''s'' ''l'' ''r'' sceneIdle))
       = [wallA, \<lparr> seg_id = ''n'', seg_start = (4, 0, 0), seg_end = (0, 0, 1) \<rparr>]
   \<and> handleClick (Some (0, 0, 1)) ''n'' ''l'' ''r''
        (handlePointerMove (Some (0, 0, 1)) (handleClick (Some (4, 0, 0)) ''s'' ''l'' ''r'' sceneIdle))
       = handlePointerMove (Some (0, 0, 1)) (handleClick (Some (4, 0, 0)) ''s'' ''l'' ''r'' sceneIdle)"
proof -
  have h1: "isDrawingMode sceneIdle" and h2: "\<not> isDrawing sceneIdle"
    by (simp_all add: sceneIdle_def)
  have h3: "applySnap (snapGridEnabled sceneIdle) (snapPoints (segments sceneIdle))
              (Some (4, 0, 0)) = Some (4, 0, 0)"
    by (simp add: sceneIdle_def eval_simps)
  have h4: "applySnap (snapGridEnabled sceneIdle) (snapPoints (segments sceneIdle))
              (Some (0, 0, 1)) = Some (0, 0, 1)"
    by (simp add: sceneIdle_def eval_simps)
  have h5: "\<not> wouldIntersectExistingWalls (4, 0, 0) (0, 0, 1) (segments sceneIdle)"
    by (simp add: sceneIdle_def eval_simps)
  have seg: "segments sceneIdle = [wallA]" by (simp add: sceneIdle_def)
  from commit_without_move [OF h1 h2 h3 h4 h5, of "''s''" "''l''" "''r''" "''n''" "''l''" "''r''"]
    sharp_idle
  have a: "segments (handleClick (Some (0, 0, 1)) ''n'' ''l'' ''r''
        (handleClick (Some (4, 0, 0)) ''s'' ''l'' ''r'' sceneIdle))
       = segments sceneIdle @ [\<lparr> seg_id = ''n'', seg_start = (4, 0, 0), seg_end = (0, 0, 1) \<rparr>]"
    and b: "handleClick (Some (0, 0, 1)) ''n'' ''l'' ''r''
        (handlePointerMove (Some (0, 0, 1)) (handleClick (Some (4, 0, 0)) ''s'' ''l'' ''r'' sceneIdle))
       = handlePointerMove (Some (0, 0, 1)) (handleClick (Some (4, 0, 0)) ''s'' ''l'' ''r'' sceneIdle)"
    by blast+
  from a have a': "segments (handleClick (Some (0, 0, 1)) ''n'' ''l'' ''r''
        (handleClick (Some (4, 0, 0)) ''s'' ''l'' ''r'' sceneIdle))
       = [wallA, \<lparr> seg_id = ''n'', seg_start = (4, 0, 0), seg_end = (0, 0, 1) \<rparr>]"
    by (simp add: seg)
  from h1 h2 h3 h4 h5 sharp_idle a' b show ?thesis by blast
qed

end
